theory Spec2Isabelle
  imports Complex_Main "HOL-Library.Word" "HOL-Library.Sublist"
begin

section \<open>JavaScript strings\<close>

text \<open>
  A JavaScript string is a sequence of UTF-16 code units; \<open>length\<close>, \<open>slice\<close> and the
  regular-expression engine (without the \<open>u\<close> flag) all count and compare code units.
  A \<open>Buffer\<close> is a sequence of bytes.
\<close>

type_synonym codeunit = "16 word"
type_synonym jsstring = "codeunit list"
type_synonym bytes = "8 word list"

definition js :: "string \<Rightarrow> jsstring" where
  \<comment> \<open>the code units of an ASCII literal of the source\<close>
  "js s = map of_char s"

definition LF :: codeunit where
  "LF = 0x0A"

section \<open>The pattern extractor: \<open>extractErrorsFromLogs\<close> in github-service.js\<close>

subsection \<open>The regular expressions \<open>/<marker>.+/gi\<close>\<close>

definition isLineTerminator :: "codeunit \<Rightarrow> bool" where
  \<comment> \<open>what \<open>.\<close> does not match: LF, CR, U+2028, U+2029\<close>
  "isLineTerminator c = (c = 0x0A \<or> c = 0x0D \<or> c = 0x2028 \<or> c = 0x2029)"

definition canonicalize :: "codeunit \<Rightarrow> codeunit" where
  \<comment> \<open>Case folding of the \<open>i\<close> flag. Without the \<open>u\<close> flag a code unit from 128 on is
      never folded to one below 128, and every character of the six markers is ASCII,
      so the comparison with a marker character is decided by the ASCII letters.\<close>
  "canonicalize c = (if 0x61 \<le> c \<and> c \<le> 0x7A then c - 0x20 else c)"

fun matchLiteral :: "jsstring \<Rightarrow> jsstring \<Rightarrow> bool" where
  \<comment> \<open>the marker, character by character, at the start of the text\<close>
  "matchLiteral [] s = True"
| "matchLiteral (p # ps) [] = False"
| "matchLiteral (p # ps) (c # cs) = (canonicalize p = canonicalize c \<and> matchLiteral ps cs)"

definition matchAt :: "jsstring \<Rightarrow> jsstring \<Rightarrow> nat \<Rightarrow> nat option" where
  \<comment> \<open>One attempt of \<open>/<marker>.+/i\<close> at index \<open>i\<close>: the marker, then the greedy \<open>.+\<close>,
      which takes every character up to the next line terminator and needs at least one.
      The result is the index where the match ends.\<close>
  "matchAt lit s i =
     (if matchLiteral lit (drop i s) then
        (let run = takeWhile (\<lambda>c. \<not> isLineTerminator c) (drop (i + length lit) s)
         in if run = [] then None else Some (i + length lit + length run))
      else None)"

function matchesFrom :: "jsstring \<Rightarrow> jsstring \<Rightarrow> nat \<Rightarrow> (nat \<times> nat) list" where
  \<comment> \<open>The loop of \<open>String.prototype.match\<close> for a global pattern: search from
      \<open>lastIndex\<close> for the leftmost index where the pattern matches, record the match,
      set \<open>lastIndex\<close> to its end, and go on until the search fails.\<close>
  "matchesFrom lit s lastIndex =
     (if length s \<le> lastIndex then []
      else case matchAt lit s lastIndex of
             Some e \<Rightarrow> (lastIndex, e) # matchesFrom lit s e
           | None \<Rightarrow> matchesFrom lit s (Suc lastIndex))"
  by pat_completeness auto
termination
  by (relation "measure (\<lambda>(lit, s, i). length s - i)")
     (auto simp: matchAt_def Let_def simp flip: length_greater_0_conv split: if_splits)

declare matchesFrom.simps [simp del]

definition substring :: "jsstring \<Rightarrow> nat \<Rightarrow> nat \<Rightarrow> jsstring" where
  "substring s b e = take (e - b) (drop b s)"

definition matchStrings :: "jsstring \<Rightarrow> jsstring \<Rightarrow> jsstring list" where
  "matchStrings lit s = map (\<lambda>(b, e). substring s b e) (matchesFrom lit s 0)"

definition jsMatch :: "jsstring \<Rightarrow> jsstring \<Rightarrow> jsstring list option" where
  \<comment> \<open>\<open>logText.match(pattern)\<close>: the array of all matches, or \<open>null\<close> when there is none\<close>
  "jsMatch lit s = (let ms = matchStrings lit s in if ms = [] then None else Some ms)"

subsection \<open>The extraction\<close>

definition errorPatterns :: "jsstring list" where
  \<comment> \<open>the markers of the six patterns, in the declared order; each pattern is the
      marker followed by \<open>.+\<close>, with the flags \<open>g\<close> and \<open>i\<close>\<close>
  "errorPatterns =
     [js ''Error:'', js ''ERROR:'', js ''Failed:'', js ''FAILED:'', js ''[error]'', js ''fatal:'']"

definition collectErrors :: "jsstring \<Rightarrow> jsstring list" where
  \<comment> \<open>the \<open>for (const pattern of errorPatterns)\<close> loop\<close>
  "collectErrors logText =
     foldl (\<lambda>errors pattern.
              case jsMatch pattern logText of
                None \<Rightarrow> errors
              | Some matches \<Rightarrow> errors @ matches)
           [] errorPatterns"

fun join :: "jsstring \<Rightarrow> jsstring list \<Rightarrow> jsstring" where
  \<comment> \<open>\<open>Array.prototype.join\<close>\<close>
  "join sep [] = []"
| "join sep [x] = x"
| "join sep (x # y # ys) = x @ sep @ join sep (y # ys)"

definition slice :: "jsstring \<Rightarrow> int \<Rightarrow> jsstring" where
  \<comment> \<open>\<open>String.prototype.slice(start)\<close>: a negative start counts from the end and is
      clamped at 0, a positive one is clamped at the length\<close>
  "slice s start =
     (let len = int (length s);
          from = (if start < 0 then max (len + start) 0 else min start len)
      in drop (nat from) s)"

definition extractErrorExcerpt :: "jsstring \<Rightarrow> jsstring" where
  \<comment> \<open>the body of the \<open>try\<close> block once \<open>logText\<close> is known\<close>
  "extractErrorExcerpt logText =
     (let errors = collectErrors logText;
          errorText = join [LF] (take 50 errors)
      in if length errorText > 0 then errorText else slice logText (- 2000))"

fun splitOn :: "codeunit \<Rightarrow> jsstring \<Rightarrow> jsstring list" where
  \<comment> \<open>\<open>String.prototype.split\<close> at a one-character separator: the lines of a text\<close>
  "splitOn sep [] = [[]]"
| "splitOn sep (c # cs) =
     (if c = sep then [] # splitOn sep cs
      else (c # hd (splitOn sep cs)) # tl (splitOn sep cs))"

subsection \<open>From the argument to the log text: \<open>logBuffer.toString('utf-8')\<close>\<close>

text \<open>
  \<open>Buffer.prototype.toString('utf-8')\<close> does not throw on any bytes: a byte sequence that
  is not UTF-8 is decoded with U+FFFD in place of each ill-formed part. The decoder below is the
  UTF-8 decoder of the Encoding Standard; its state is the code point under
  construction, the continuation bytes seen and needed, and the bounds of the next
  continuation byte.
\<close>

fun utf8Decode :: "nat \<Rightarrow> nat \<Rightarrow> nat \<Rightarrow> nat \<Rightarrow> nat \<Rightarrow> bytes \<Rightarrow> nat list" where
  "utf8Decode cp seen needed lower upper [] = (if needed \<noteq> 0 then [0xFFFD] else [])"
| "utf8Decode cp seen needed lower upper (b # bs) =
     (if needed = 0 then
        (if b \<le> 0x7F then unat b # utf8Decode 0 0 0 0x80 0xBF bs
         else if 0xC2 \<le> b \<and> b \<le> 0xDF then
           utf8Decode (unat b mod 32) 0 1 0x80 0xBF bs
         else if 0xE0 \<le> b \<and> b \<le> 0xEF then
           utf8Decode (unat b mod 16) 0 2
             (if b = 0xE0 then 0xA0 else 0x80) (if b = 0xED then 0x9F else 0xBF) bs
         else if 0xF0 \<le> b \<and> b \<le> 0xF4 then
           utf8Decode (unat b mod 8) 0 3
             (if b = 0xF0 then 0x90 else 0x80) (if b = 0xF4 then 0x8F else 0xBF) bs
         else 0xFFFD # utf8Decode 0 0 0 0x80 0xBF bs)
      else if unat b < lower \<or> upper < unat b then
        0xFFFD # utf8Decode 0 0 0 0x80 0xBF (b # bs)
      else
        (let cp' = cp * 64 + unat b mod 64
         in if Suc seen = needed then cp' # utf8Decode 0 0 0 0x80 0xBF bs
            else utf8Decode cp' (Suc seen) needed 0x80 0xBF bs))"

definition utf16Encode :: "nat \<Rightarrow> jsstring" where
  \<comment> \<open>a code point beyond U+FFFF is a surrogate pair\<close>
  "utf16Encode cp =
     (if cp < 0x10000 then [of_nat cp]
      else [of_nat (0xD800 + (cp - 0x10000) div 1024), of_nat (0xDC00 + (cp - 0x10000) mod 1024)])"

definition bufferToString :: "bytes \<Rightarrow> jsstring" where
  "bufferToString bs = concat (map utf16Encode (utf8Decode 0 0 0 0x80 0xBF bs))"

text \<open>
  The arguments considered: a buffer, which is the documented parameter type, a string,
  \<open>undefined\<close>, \<open>null\<close>, and an object with a \<open>toString\<close> method of its own, given by what
  the call \<open>toString('utf-8')\<close> does: it returns a string or it throws a value. JavaScript
  can throw any value: an \<open>Error\<close> object, \<open>null\<close>, \<open>undefined\<close>, or another value whose
  \<open>message\<close> property can be read.
\<close>

datatype jserror = TypeError

datatype thrown = ThrownError jserror | ThrownNull | ThrownUndefined | ThrownValue

datatype toStringCall = Returns jsstring | Throws thrown

datatype jsinput = Undefined | Null | Buffer bytes | Str jsstring | Object toStringCall

definition toStringUtf8 :: "jsinput \<Rightarrow> thrown + jsstring" where
  \<comment> \<open>\<open>logBuffer.toString('utf-8')\<close>: reading a property of \<open>undefined\<close> or \<open>null\<close>
      throws a \<open>TypeError\<close>; a string is its own \<open>toString\<close>\<close>
  "toStringUtf8 v =
     (case v of
        Undefined \<Rightarrow> Inl (ThrownError TypeError)
      | Null \<Rightarrow> Inl (ThrownError TypeError)
      | Buffer bs \<Rightarrow> Inr (bufferToString bs)
      | Str s \<Rightarrow> Inr s
      | Object call \<Rightarrow> (case call of Returns s \<Rightarrow> Inr s | Throws x \<Rightarrow> Inl x))"

definition tryExtract :: "jsinput \<Rightarrow> thrown + jsstring" where
  \<comment> \<open>the \<open>try\<close> block\<close>
  "tryExtract logBuffer =
     (case toStringUtf8 logBuffer of
        Inl x \<Rightarrow> Inl x
      | Inr logText \<Rightarrow> Inr (extractErrorExcerpt logText))"

definition readMessage :: "thrown \<Rightarrow> jserror + unit" where
  \<comment> \<open>\<open>error.message\<close> in the \<open>catch\<close> block: reading a property of \<open>null\<close> or
      \<open>undefined\<close> throws a \<open>TypeError\<close>, and nothing catches it\<close>
  "readMessage error =
     (case error of
        ThrownNull \<Rightarrow> Inl TypeError
      | ThrownUndefined \<Rightarrow> Inl TypeError
      | ThrownError e \<Rightarrow> Inr ()
      | ThrownValue \<Rightarrow> Inr ())"

definition extractErrorsFromLogs :: "jsinput \<Rightarrow> jserror + jsstring" where
  \<comment> \<open>The whole method. The \<open>catch\<close> block logs \<open>error.message\<close> and returns a fixed
      string; \<open>Inl\<close> is an error that leaves the method.\<close>
  "extractErrorsFromLogs logBuffer =
     (case tryExtract logBuffer of
        Inl error \<Rightarrow>
          (case readMessage error of
             Inl e \<Rightarrow> Inl e
           | Inr message \<Rightarrow> Inr (js ''Unable to parse log content''))
      | Inr text \<Rightarrow> Inr text)"

section \<open>The run locator: \<open>getWorkflowRuns\<close> and \<open>getLastFailedRun\<close>\<close>

text \<open>
  The HTTP client (\<open>axios.get\<close>) is a parameter: a function from the request to either
  the error it throws or the payload it returns. The request headers are the same in
  every call and are left out.
\<close>

datatype param = PNum nat | PStr jsstring

record request =
  url :: jsstring
  params :: "(string \<times> param) list"

datatype apiError = RemoteAPIError "nat option"

record workflowRun =
  run_id :: nat
  created_at :: jsstring
  run_status :: jsstring
  run_conclusion :: jsstring

definition baseURL :: jsstring where
  "baseURL = js ''https://api.github.com''"

definition getWorkflowRuns ::
  "(request \<Rightarrow> apiError + workflowRun list option) \<Rightarrow>
     jsstring \<Rightarrow> jsstring \<Rightarrow> jsstring \<Rightarrow> jsstring option \<Rightarrow> jsstring option \<Rightarrow>
     apiError + workflowRun list" where
  \<comment> \<open>An argument that is \<open>undefined\<close> (here \<open>None\<close>) takes its default; an empty string
      is falsy and adds no parameter. The payload is \<open>response.data.workflow_runs\<close>,
      \<open>None\<close> when the property is missing.\<close>
  "getWorkflowRuns axiosGet owner repo workflowId statusArg conclusionArg =
     (let status = (case statusArg of None \<Rightarrow> js ''completed'' | Some s \<Rightarrow> s);
          conclusion = (case conclusionArg of None \<Rightarrow> js ''failure'' | Some c \<Rightarrow> c);
          url = baseURL @ js ''/repos/'' @ owner @ js ''/'' @ repo
                  @ js ''/actions/workflows/'' @ workflowId @ js ''/runs'';
          params = [(''per_page'', PNum 10), (''page'', PNum 1)]
                     @ (if status \<noteq> [] then [(''status'', PStr status)] else [])
                     @ (if conclusion \<noteq> [] then [(''conclusion'', PStr conclusion)] else [])
      in case axiosGet \<lparr>url = url, params = params\<rparr> of
           Inl error \<Rightarrow> Inl error
         | Inr workflow_runs \<Rightarrow>
             Inr (case workflow_runs of None \<Rightarrow> [] | Some runs \<Rightarrow> runs))"

definition getLastFailedRun ::
  "(request \<Rightarrow> apiError + workflowRun list option) \<Rightarrow>
     jsstring \<Rightarrow> jsstring \<Rightarrow> jsstring \<Rightarrow> apiError + workflowRun option" where
  \<comment> \<open>\<open>None\<close> is the \<open>null\<close> of the source; the \<open>catch\<close> block rethrows the error\<close>
  "getLastFailedRun axiosGet owner repo workflowId =
     (case getWorkflowRuns axiosGet owner repo workflowId
             (Some (js ''completed'')) (Some (js ''failure'')) of
        Inl error \<Rightarrow> Inl error
      | Inr runs \<Rightarrow>
          if length runs = 0 then Inr None
          else Inr (Some (runs ! 0)))"

section \<open>The failure summarizer: \<open>extractFailureInfo\<close>\<close>

text \<open>
  A job and a step of the API answer, and the objects of the report. The source names
  the fields \<open>name\<close>, \<open>number\<close>, \<open>conclusion\<close>, \<open>started_at\<close> and \<open>completed_at\<close> (\<open>startedAt\<close>
  and \<open>completedAt\<close> in the report); a prefix keeps the fields of the four records apart.
\<close>

record step =
  step_name :: jsstring
  step_number :: nat
  step_conclusion :: jsstring
  step_started_at :: jsstring
  step_completed_at :: jsstring

record job =
  job_name :: jsstring
  job_conclusion :: jsstring
  job_started_at :: jsstring
  job_completed_at :: jsstring
  steps :: "step list"

record failedStep =
  fs_name :: jsstring
  fs_number :: nat
  fs_conclusion :: jsstring
  fs_startedAt :: jsstring
  fs_completedAt :: jsstring

record failedJob =
  fj_name :: jsstring
  fj_conclusion :: jsstring
  fj_startedAt :: jsstring
  fj_completedAt :: jsstring
  failedSteps :: "failedStep list"

record failureInfo =
  runId :: nat
  failedJobsCount :: nat
  failedJobs :: "failedJob list"

definition getWorkflowRunJobs ::
  "(request \<Rightarrow> apiError + job list option) \<Rightarrow> jsstring \<Rightarrow> jsstring \<Rightarrow> jsstring \<Rightarrow>
     apiError + job list" where
  \<comment> \<open>\<open>runIdText\<close> is the run id as the template literal of the URL prints it; the
      payload is \<open>response.data.jobs\<close>, \<open>None\<close> when the property is missing\<close>
  "getWorkflowRunJobs axiosGet owner repo runIdText =
     (let url = baseURL @ js ''/repos/'' @ owner @ js ''/'' @ repo
                  @ js ''/actions/runs/'' @ runIdText @ js ''/jobs''
      in case axiosGet \<lparr>url = url, params = []\<rparr> of
           Inl error \<Rightarrow> Inl error
         | Inr jobs \<Rightarrow> Inr (case jobs of None \<Rightarrow> [] | Some list \<Rightarrow> list))"

definition summarizeStep :: "step \<Rightarrow> failedStep" where
  "summarizeStep step =
     \<lparr>fs_name = step_name step, fs_number = step_number step,
      fs_conclusion = step_conclusion step,
      fs_startedAt = step_started_at step, fs_completedAt = step_completed_at step\<rparr>"

definition summarizeJob :: "job \<Rightarrow> failedJob" where
  "summarizeJob job =
     \<lparr>fj_name = job_name job, fj_conclusion = job_conclusion job,
      fj_startedAt = job_started_at job, fj_completedAt = job_completed_at job,
      failedSteps =
        map summarizeStep (filter (\<lambda>step. step_conclusion step = js ''failure'') (steps job))\<rparr>"

definition summarizeFailures :: "nat \<Rightarrow> job list \<Rightarrow> failureInfo" where
  \<comment> \<open>what \<open>extractFailureInfo\<close> computes from the fetched jobs\<close>
  "summarizeFailures rid jobs =
     (let failed = filter (\<lambda>job. job_conclusion job = js ''failure'') jobs
      in \<lparr>runId = rid,
          failedJobsCount = length failed,
          failedJobs = map summarizeJob failed\<rparr>)"

definition extractFailureInfo ::
  "(request \<Rightarrow> apiError + job list option) \<Rightarrow> jsstring \<Rightarrow> jsstring \<Rightarrow> nat \<Rightarrow>
     jsstring \<Rightarrow> apiError + failureInfo" where
  \<comment> \<open>\<open>rid\<close> is the run id, \<open>runIdText\<close> the same id as the URL prints it; the \<open>catch\<close>
      block rethrows the error\<close>
  "extractFailureInfo axiosGet owner repo rid runIdText =
     (case getWorkflowRunJobs axiosGet owner repo runIdText of
        Inl error \<Rightarrow> Inl error
      | Inr jobs \<Rightarrow> Inr (summarizeFailures rid jobs))"

section \<open>The push-mode endpoint: \<open>POST /agent/analyze\<close>\<close>

datatype json =
    JNull
  | JBool bool
  | JNum real
  | JStr jsstring
  | JArr "json list"
  | JObj "(string \<times> json) list"

text \<open>
  A field of the parsed body is a JSON value, or \<open>None\<close> where the source reads
  \<open>undefined\<close> because the body has no such field.
\<close>

type_synonym jsvalue = "json option"

fun truthy :: "jsvalue \<Rightarrow> bool" where
  \<comment> \<open>\<open>ToBoolean\<close>: \<open>undefined\<close>, \<open>null\<close>, \<open>false\<close>, zero and the empty string are falsy\<close>
  "truthy None = False"
| "truthy (Some JNull) = False"
| "truthy (Some (JBool b)) = b"
| "truthy (Some (JNum n)) = (n \<noteq> 0)"
| "truthy (Some (JStr s)) = (s \<noteq> [])"
| "truthy (Some (JArr xs)) = True"
| "truthy (Some (JObj fs)) = True"

fun substringMethod :: "jsvalue \<Rightarrow> nat \<Rightarrow> nat \<Rightarrow> jserror + jsstring" where
  \<comment> \<open>\<open>errorLog.substring(start, end)\<close>: only a string has the method; on any other
      value the call throws\<close>
  "substringMethod (Some (JStr s)) start end' = Inr (substring s (min start end') (max start end'))"
| "substringMethod v start end' = Inl TypeError"

record metadata =
  md_runId :: jsvalue
  md_runUrl :: jsvalue
  md_repository :: jsvalue
  md_failedJobs :: jsvalue

datatype responseBody =
    ErrorBody jsstring
  | Received jsstring jsstring jsstring metadata

record response =
  statusCode :: nat
  body :: responseBody

definition analyze :: "jsstring \<Rightarrow> (string \<rightharpoonup> json) \<Rightarrow> jserror + response" where
  \<comment> \<open>The handler. \<open>now\<close> is the clock reading \<open>new Date().toISOString()\<close> of the
      response; \<open>Received\<close> carries \<open>status\<close>, \<open>message\<close>, \<open>timestamp\<close> and \<open>metadata\<close>;
      \<open>res.json\<close> without \<open>res.status\<close> answers 200.\<close>
  "analyze now reqBody =
     (let runId = reqBody ''runId'';
          runUrl = reqBody ''runUrl'';
          failedJobs = reqBody ''failedJobs'';
          errorLog = reqBody ''errorLog'';
          repository = reqBody ''repository''
      in if \<not> truthy errorLog then
           Inr \<lparr>statusCode = 400, body = ErrorBody (js ''Missing required field: errorLog'')\<rparr>
         else
           (case substringMethod errorLog 0 500 of
              Inl e \<Rightarrow> Inl e
            | Inr preview \<Rightarrow>
                Inr \<lparr>statusCode = 200,
                     body = Received (js ''received'')
                              (js ''Failure data logged. AI analysis not yet implemented.'')
                              now
                              \<lparr>md_runId = runId, md_runUrl = runUrl,
                               md_repository = repository, md_failedJobs = failedJobs\<rparr>\<rparr>))"

section \<open>Inputs, requests and answers named in the properties\<close>

definition ascii :: "string \<Rightarrow> bytes" where
  \<comment> \<open>the bytes of an ASCII text\<close>
  "ascii s = map of_char s"

definition scenarioLog :: jsstring where
  \<comment> \<open>the log text of the scenario of the specification\<close>
  "scenarioLog = js ''foo'' @ [LF] @ js ''Error: disk full'' @ [LF] @ js ''bar'' @ [LF]
                   @ js ''ERROR: retry failed'' @ [LF]"

definition scenarioBytes :: bytes where
  \<comment> \<open>the same text as the bytes of a buffer\<close>
  "scenarioBytes = ascii ''foo'' @ [0x0A] @ ascii ''Error: disk full'' @ [0x0A]
                     @ ascii ''bar'' @ [0x0A] @ ascii ''ERROR: retry failed'' @ [0x0A]"

definition beginsWithMarker :: "jsstring \<Rightarrow> bool" where
  \<comment> \<open>the specification's reading of a pattern: a line that begins with a marker,
      in any letter case\<close>
  "beginsWithMarker line = list_ex (\<lambda>marker. matchLiteral marker line) errorPatterns"

definition missingField :: response where
  \<comment> \<open>the answer to a request without a usable \<open>errorLog\<close>\<close>
  "missingField =
     \<lparr>statusCode = 400, body = ErrorBody (js ''Missing required field: errorLog'')\<rparr>"

definition received :: "jsstring \<Rightarrow> (string \<rightharpoonup> json) \<Rightarrow> response" where
  \<comment> \<open>the answer to an accepted request: the four fields of the body are echoed, each
      \<open>undefined\<close> (\<open>None\<close>) when the body does not have it\<close>
  "received now reqBody =
     \<lparr>statusCode = 200,
      body = Received (js ''received'')
               (js ''Failure data logged. AI analysis not yet implemented.'')
               now
               \<lparr>md_runId = reqBody ''runId'', md_runUrl = reqBody ''runUrl'',
                md_repository = reqBody ''repository'',
                md_failedJobs = reqBody ''failedJobs''\<rparr>\<rparr>"

definition failedRunsRequest :: "jsstring \<Rightarrow> jsstring \<Rightarrow> jsstring \<Rightarrow> request" where
  \<comment> \<open>the request that \<open>getLastFailedRun\<close> sends through \<open>getWorkflowRuns\<close>\<close>
  "failedRunsRequest owner repo workflowId =
     \<lparr>url = baseURL @ js ''/repos/'' @ owner @ js ''/'' @ repo
              @ js ''/actions/workflows/'' @ workflowId @ js ''/runs'',
      params = [(''per_page'', PNum 10), (''page'', PNum 1),
                (''status'', PStr (js ''completed'')), (''conclusion'', PStr (js ''failure''))]\<rparr>"

definition olderRun :: workflowRun where
  "olderRun = \<lparr>run_id = 11, created_at = js ''2024-01-01T00:00:00Z'',
                run_status = js ''completed'', run_conclusion = js ''failure''\<rparr>"

definition newerRun :: workflowRun where
  "newerRun = \<lparr>run_id = 12, created_at = js ''2024-02-01T00:00:00Z'',
                run_status = js ''completed'', run_conclusion = js ''failure''\<rparr>"

definition buildJob :: job where
  "buildJob =
     \<lparr>job_name = js ''build'', job_conclusion = js ''failure'',
      job_started_at = js ''t0'', job_completed_at = js ''t1'',
      steps = [\<lparr>step_name = js ''compile'', step_number = 1, step_conclusion = js ''failure'',
                 step_started_at = js ''t0'', step_completed_at = js ''t1''\<rparr>,
               \<lparr>step_name = js ''test'', step_number = 2, step_conclusion = js ''success'',
                 step_started_at = js ''t0'', step_completed_at = js ''t1''\<rparr>]\<rparr>"

definition lintJob :: job where
  "lintJob =
     \<lparr>job_name = js ''lint'', job_conclusion = js ''success'',
      job_started_at = js ''t0'', job_completed_at = js ''t1'', steps = []\<rparr>"

section \<open>Properties of the pattern extractor\<close>

lemma matchAt_bounds: "matchAt lit s i = Some e \<Longrightarrow> i < e \<and> e \<le> length s"
proof -
  assume a: "matchAt lit s i = Some e"
  define run where "run = takeWhile (\<lambda>c. \<not> isLineTerminator c) (drop (i + length lit) s)"
  from a have e: "e = i + length lit + length run" and ne: "run \<noteq> []"
    by (auto simp: matchAt_def run_def Let_def split: if_splits)
  have "length run \<le> length (drop (i + length lit) s)"
    unfolding run_def by (rule length_takeWhile_le)
  moreover from ne have "drop (i + length lit) s \<noteq> []"
    unfolding run_def by auto
  ultimately have "e \<le> length s"
    using e by simp
  moreover from ne e have "i < e" by simp
  ultimately show ?thesis by simp
qed

lemma slice_last: "0 < n \<Longrightarrow> slice s (- int n) = drop (length s - n) s"
  by (auto simp: slice_def Let_def max_def nat_diff_distrib')

lemma collect_acc:
  "foldl (\<lambda>errors pattern. case jsMatch pattern t of None \<Rightarrow> errors | Some matches \<Rightarrow> errors @ matches) acc ps
     = acc @ concat (map (\<lambda>p. matchStrings p t) ps)"
  by (induction ps arbitrary: acc) (auto simp: jsMatch_def Let_def)

lemma collectErrors_concat:
  "collectErrors t = concat (map (\<lambda>p. matchStrings p t) errorPatterns)"
  unfolding collectErrors_def by (simp add: collect_acc)

lemma matchesFrom_span:
  "(b, e) \<in> set (matchesFrom lit s i) \<Longrightarrow> i \<le> b \<and> matchAt lit s b = Some e"
proof (induction lit s i rule: matchesFrom.induct)
  case (1 lit s i)
  show ?case
  proof (cases "length s \<le> i")
    case True
    with "1.prems" show ?thesis by (simp add: matchesFrom.simps)
  next
    case False
    show ?thesis
    proof (cases "matchAt lit s i")
      case None
      with False "1.prems" have "(b, e) \<in> set (matchesFrom lit s (Suc i))"
        by (simp add: matchesFrom.simps [of lit s i])
      with "1.IH"(1) [OF False None] show ?thesis by simp
    next
      case (Some e')
      with False "1.prems" have "(b, e) = (i, e') \<or> (b, e) \<in> set (matchesFrom lit s e')"
        by (simp add: matchesFrom.simps [of lit s i])
      then show ?thesis
      proof
        assume "(b, e) = (i, e')"
        with Some show ?thesis by simp
      next
        assume "(b, e) \<in> set (matchesFrom lit s e')"
        with "1.IH"(2) [OF False Some] have "e' \<le> b \<and> matchAt lit s b = Some e" by simp
        moreover from matchAt_bounds [OF Some] have "i < e'" by simp
        ultimately show ?thesis by simp
      qed
    qed
  qed
qed

lemma matchesFrom_sorted:
  "sorted_wrt (\<lambda>x y. snd x \<le> fst y) (matchesFrom lit s i)"
proof (induction lit s i rule: matchesFrom.induct)
  case (1 lit s i)
  show ?case
  proof (cases "length s \<le> i")
    case True
    then show ?thesis by (simp add: matchesFrom.simps)
  next
    case False
    show ?thesis
    proof (cases "matchAt lit s i")
      case None
      with False "1.IH"(1) show ?thesis
        by (simp add: matchesFrom.simps [of lit s i])
    next
      case (Some e')
      have "\<forall>y \<in> set (matchesFrom lit s e'). e' \<le> fst y"
        using matchesFrom_span [of _ _ lit s e'] by auto
      with False Some "1.IH"(2) show ?thesis
        by (simp add: matchesFrom.simps [of lit s i])
    qed
  qed
qed

lemma matchesFrom_complete:
  "i \<le> j \<Longrightarrow> matchAt lit s j \<noteq> None \<Longrightarrow>
     \<exists>(b, e) \<in> set (matchesFrom lit s i). b \<le> j \<and> j < e"
proof (induction lit s i rule: matchesFrom.induct)
  case (1 lit s i)
  from "1.prems"(2) obtain ej where ej: "matchAt lit s j = Some ej" by auto
  from matchAt_bounds [OF ej] have jlt: "j < length s" by simp
  with "1.prems"(1) have False: "\<not> length s \<le> i" by simp
  show ?case
  proof (cases "matchAt lit s i")
    case None
    with ej have "i \<noteq> j" by auto
    with "1.prems"(1) have "Suc i \<le> j" by simp
    from "1.IH"(1) [OF False None this "1.prems"(2)] False None show ?thesis
      by (simp add: matchesFrom.simps [of lit s i])
  next
    case (Some e')
    show ?thesis
    proof (cases "j < e'")
      case True
      with False Some "1.prems"(1) show ?thesis
        by (simp add: matchesFrom.simps [of lit s i])
    next
      case False': False
      then have "e' \<le> j" by simp
      from "1.IH"(2) [OF False Some this "1.prems"(2)] False Some show ?thesis
        by (simp add: matchesFrom.simps [of lit s i])
    qed
  qed
qed

lemma splitOn_single: "sep \<notin> set x \<Longrightarrow> splitOn sep x = [x]"
  by (induction x) auto

lemma splitOn_append: "sep \<notin> set x \<Longrightarrow> splitOn sep (x @ sep # rest) = x # splitOn sep rest"
  by (induction x) auto

lemma splitOn_join:
  "xs \<noteq> [] \<Longrightarrow> \<forall>x \<in> set xs. sep \<notin> set x \<Longrightarrow> splitOn sep (join [sep] xs) = xs"
proof (induction "[sep]" xs rule: join.induct)
  case 1
  then show ?case by simp
next
  case (2 x)
  then show ?case by (simp add: splitOn_single)
next
  case (3 x y ys)
  then show ?case by (simp add: splitOn_append)
qed

lemma join_nonempty: "xs \<noteq> [] \<Longrightarrow> \<forall>x \<in> set xs. x \<noteq> [] \<Longrightarrow> join sep xs \<noteq> []"
  by (induction sep xs rule: join.induct) auto

lemma matchLiteral_take: "matchLiteral lit s \<Longrightarrow> length lit \<le> n \<Longrightarrow> matchLiteral lit (take n s)"
proof (induction lit s arbitrary: n rule: matchLiteral.induct)
  case (3 p ps c cs)
  then show ?case by (cases n) auto
qed auto

lemma matchLiteral_nth:
  "matchLiteral lit s \<Longrightarrow> k < length lit \<Longrightarrow> canonicalize (lit ! k) = canonicalize (s ! k)"
proof (induction lit s arbitrary: k rule: matchLiteral.induct)
  case (3 p ps c cs)
  then show ?case by (cases k) auto
qed auto

lemma matchLiteral_iff:
  "matchLiteral lit s \<longleftrightarrow> length lit \<le> length s \<and> map canonicalize (take (length lit) s) = map canonicalize lit"
  by (induction lit s rule: matchLiteral.induct) auto

lemma canonicalize_terminator: "isLineTerminator c \<Longrightarrow> canonicalize c = c"
  by (auto simp: isLineTerminator_def canonicalize_def)

lemma matchAt_shape:
  assumes "matchAt lit s b = Some e"
  shows "matchLiteral lit (substring s b e)"
    and "length lit < length (substring s b e)"
    and "length (substring s b e) = e - b"
    and "\<forall>c \<in> set (drop (length lit) (substring s b e)). \<not> isLineTerminator c"
    and "e = length s \<or> isLineTerminator (s ! e)"
proof -
  define rest where "rest = drop (b + length lit) s"
  define run where "run = takeWhile (\<lambda>c. \<not> isLineTerminator c) rest"
  from assms have ml: "matchLiteral lit (drop b s)" and e: "e = b + length lit + length run"
    and ne: "run \<noteq> []"
    by (auto simp: matchAt_def run_def rest_def Let_def split: if_splits)
  from matchAt_bounds [OF assms] have be: "b < e" "e \<le> length s" by simp_all
  show len: "length (substring s b e) = e - b"
    using be by (simp add: substring_def)
  from ml e show "matchLiteral lit (substring s b e)"
    unfolding substring_def by (intro matchLiteral_take) simp_all
  from ne e len show "length lit < length (substring s b e)" by simp
  have "drop (length lit) (substring s b e) = take (length run) rest"
    using e by (simp add: substring_def rest_def drop_take add.commute)
  also have "\<dots> = run"
    unfolding run_def by (rule takeWhile_eq_take [symmetric])
  finally have "drop (length lit) (substring s b e) = run" .
  moreover have "\<forall>c \<in> set run. \<not> isLineTerminator c"
    unfolding run_def by (auto dest: set_takeWhileD)
  ultimately show "\<forall>c \<in> set (drop (length lit) (substring s b e)). \<not> isLineTerminator c"
    by simp
  show "e = length s \<or> isLineTerminator (s ! e)"
  proof (cases "e = length s")
    case False
    with be have "length run < length rest" using e by (simp add: rest_def)
    then have "\<not> (\<not> isLineTerminator (rest ! length run))"
      unfolding run_def by (rule nth_length_takeWhile)
    moreover have "rest ! length run = s ! e"
      using be e by (simp add: rest_def add.commute add.left_commute)
    ultimately show ?thesis by simp
  qed simp
qed

lemma matchAt_iff:
  "matchAt lit s i \<noteq> None \<longleftrightarrow>
     matchLiteral lit (drop i s) \<and> i + length lit < length s \<and>
     \<not> isLineTerminator (s ! (i + length lit))"
  by (auto simp: matchAt_def Let_def takeWhile_eq_Nil_iff hd_drop_conv_nth)

lemma matchStrings_elem:
  assumes "m \<in> set (matchStrings lit s)"
  shows "\<exists>b e. matchAt lit s b = Some e \<and> m = substring s b e"
proof -
  from assms obtain b e where "(b, e) \<in> set (matchesFrom lit s 0)" and m: "m = substring s b e"
    by (auto simp: matchStrings_def)
  then have "matchAt lit s b = Some e"
    using matchesFrom_span by blast
  with m show ?thesis by blast
qed

lemma collectErrors_elem:
  assumes "m \<in> set (collectErrors s)"
  shows "\<exists>lit \<in> set errorPatterns. \<exists>b e. matchAt lit s b = Some e \<and> m = substring s b e"
proof -
  from assms obtain lit where "lit \<in> set errorPatterns" and "m \<in> set (matchStrings lit s)"
    unfolding collectErrors_concat by auto
  with matchStrings_elem show ?thesis by blast
qed

lemma matchStrings_nonempty:
  assumes "matchAt lit s i \<noteq> None"
  shows "matchStrings lit s \<noteq> []"
proof -
  from matchesFrom_complete [of 0 i lit s] assms
  have "matchesFrom lit s 0 \<noteq> []" by auto
  then show ?thesis by (simp add: matchStrings_def)
qed

lemma collectErrors_nonempty:
  assumes "lit \<in> set errorPatterns" and "matchAt lit s i \<noteq> None"
  shows "collectErrors s \<noteq> []"
proof -
  from assms(2) have "matchStrings lit s \<noteq> []" by (rule matchStrings_nonempty)
  with assms(1) show ?thesis
    unfolding collectErrors_concat by auto
qed

lemma collectErrors_Nil_iff:
  "collectErrors s = [] \<longleftrightarrow> (\<forall>lit \<in> set errorPatterns. jsMatch lit s = None)"
  unfolding collectErrors_concat by (auto simp: jsMatch_def Let_def)

lemma marker_chars:
  "lit \<in> set errorPatterns \<Longrightarrow> p \<in> set lit \<Longrightarrow> \<not> isLineTerminator (canonicalize p)"
  by (auto simp: errorPatterns_def js_def canonicalize_def isLineTerminator_def)

lemma match_no_terminator:
  assumes lit: "lit \<in> set errorPatterns" and m: "matchAt lit s b = Some e"
  shows "\<forall>c \<in> set (substring s b e). \<not> isLineTerminator c"
proof
  fix c
  define m where "m = substring s b e"
  assume "c \<in> set (substring s b e)"
  then obtain k where k: "k < length m" and c: "c = m ! k"
    unfolding m_def by (auto simp: in_set_conv_nth)
  note sh = matchAt_shape [OF assms(2), folded m_def]
  show "\<not> isLineTerminator c"
  proof (cases "k < length lit")
    case True
    with sh(1) have eq: "canonicalize (lit ! k) = canonicalize (m ! k)"
      by (rule matchLiteral_nth)
    show ?thesis
    proof
      assume t: "isLineTerminator c"
      then have "canonicalize c = c" by (rule canonicalize_terminator)
      with eq c t have "isLineTerminator (canonicalize (lit ! k))" by simp
      moreover from True have "lit ! k \<in> set lit" by simp
      ultimately show False using marker_chars [OF lit] by blast
    qed
  next
    case False
    then have "m ! k = drop (length lit) m ! (k - length lit)"
      using k by simp
    moreover have "k - length lit < length (drop (length lit) m)"
      using k False by simp
    ultimately have "m ! k \<in> set (drop (length lit) m)"
      by (metis nth_mem)
    with sh(4) c show ?thesis by simp
  qed
qed

lemma collectErrors_lines:
  assumes "m \<in> set (collectErrors s)"
  shows "m \<noteq> []" and "\<forall>c \<in> set m. \<not> isLineTerminator c" and "LF \<notin> set m"
proof -
  from collectErrors_elem [OF assms] obtain lit b e
    where lit: "lit \<in> set errorPatterns" and at: "matchAt lit s b = Some e"
      and m: "m = substring s b e" by blast
  from matchAt_shape(2) [OF at] m show "m \<noteq> []" by auto
  from match_no_terminator [OF lit at] m show nt: "\<forall>c \<in> set m. \<not> isLineTerminator c" by simp
  have "isLineTerminator LF" by (simp add: isLineTerminator_def LF_def)
  with nt show "LF \<notin> set m" by blast
qed

lemma excerpt_matched:
  assumes "collectErrors s \<noteq> []"
  shows "extractErrorExcerpt s = join [LF] (take 50 (collectErrors s))"
    and "extractErrorExcerpt s \<noteq> []"
    and "splitOn LF (extractErrorExcerpt s) = take 50 (collectErrors s)"
proof -
  define ms where "ms = take 50 (collectErrors s)"
  from assms have ne: "ms \<noteq> []" by (simp add: ms_def)
  have sub: "set ms \<subseteq> set (collectErrors s)"
    unfolding ms_def by (rule set_take_subset)
  then have "\<forall>x \<in> set ms. x \<noteq> []"
    using collectErrors_lines(1) by blast
  with ne have j: "join [LF] ms \<noteq> []" by (rule join_nonempty)
  then show eq: "extractErrorExcerpt s = join [LF] (take 50 (collectErrors s))"
    by (simp add: extractErrorExcerpt_def Let_def ms_def)
  with j show "extractErrorExcerpt s \<noteq> []" by (simp add: ms_def)
  from sub have "\<forall>x \<in> set ms. LF \<notin> set x"
    using collectErrors_lines(3) by blast
  with ne have "splitOn LF (join [LF] ms) = ms" by (rule splitOn_join)
  with eq show "splitOn LF (extractErrorExcerpt s) = take 50 (collectErrors s)"
    by (simp add: ms_def)
qed

lemma excerpt_fallback:
  assumes "collectErrors s = []"
  shows "extractErrorExcerpt s = drop (length s - 2000) s"
proof -
  have "slice s (- 2000) = drop (length s - 2000) s"
    using slice_last [of 2000 s] by simp
  with assms show ?thesis
    by (simp add: extractErrorExcerpt_def Let_def)
qed

lemma runs_ok:
  assumes "toStringUtf8 v = Inr logText"
  shows "extractErrorsFromLogs v = Inr (extractErrorExcerpt logText)"
  using assms by (simp add: extractErrorsFromLogs_def tryExtract_def)

text \<open>
  C4. When no pattern has a match in the log text, the result is the last
  \<open>min 2000 (length logText)\<close> characters of the log text: the whole text when it has at
  most 2000 characters.
\<close>

theorem C4_tail_fallback:
  assumes "toStringUtf8 v = Inr logText"
    and "\<forall>pattern \<in> set errorPatterns. jsMatch pattern logText = None"
  shows "\<exists>out. extractErrorsFromLogs v = Inr out
           \<and> out = drop (length logText - min 2000 (length logText)) logText
           \<and> length out = min 2000 (length logText)
           \<and> suffix out logText
           \<and> (length logText \<le> 2000 \<longrightarrow> out = logText)"
proof -
  from assms(2) have "collectErrors logText = []"
    by (simp add: collectErrors_Nil_iff)
  then have "extractErrorExcerpt logText = drop (length logText - 2000) logText"
    by (rule excerpt_fallback)
  moreover have "length logText - 2000 = length logText - min 2000 (length logText)"
    by simp
  ultimately have eq: "extractErrorExcerpt logText
      = drop (length logText - min 2000 (length logText)) logText" by simp
  have "suffix (drop (length logText - min 2000 (length logText)) logText) logText"
    by (rule suffix_drop)
  with eq runs_ok [OF assms(1)] show ?thesis by auto
qed

theorem C4_tail_fallback_witness:
  "toStringUtf8 (Str (js ''build ok'')) = Inr (js ''build ok'')
   \<and> list_all (\<lambda>pattern. jsMatch pattern (js ''build ok'') = None) errorPatterns
   \<and> extractErrorsFromLogs (Str (js ''build ok'')) = Inr (js ''build ok'')"
proof -
  have h1: "toStringUtf8 (Str (js ''build ok'')) = Inr (js ''build ok'')"
    by (simp add: toStringUtf8_def)
  have h2: "\<forall>pattern \<in> set errorPatterns. jsMatch pattern (js ''build ok'') = None"
    by code_simp
  have len: "length (js ''build ok'') \<le> 2000"
    by (simp add: js_def)
  from C4_tail_fallback [OF h1 h2] len h1 h2 show ?thesis by (auto simp: list_all_iff)
qed

text \<open>
  C8. A non-empty log text always gives a non-empty result, from the matches or from
  the tail of the text; the result is empty only for the empty log text.
\<close>

theorem C8_nonempty_excerpt:
  assumes "toStringUtf8 v = Inr logText"
  shows "\<exists>out. extractErrorsFromLogs v = Inr out \<and> (out = [] \<longleftrightarrow> logText = [])"
proof -
  have "extractErrorExcerpt logText = [] \<longleftrightarrow> logText = []"
  proof (cases "collectErrors logText = []")
    case True
    then have "extractErrorExcerpt logText = drop (length logText - 2000) logText"
      by (rule excerpt_fallback)
    moreover have "length logText \<le> length logText - 2000 \<longleftrightarrow> logText = []"
      by (cases logText) auto
    ultimately show ?thesis by simp
  next
    case False
    then have "extractErrorExcerpt logText \<noteq> []" by (rule excerpt_matched(2))
    moreover have "logText \<noteq> []"
    proof
      assume "logText = []"
      then have "collectErrors logText = []"
        by (simp add: collectErrors_concat matchStrings_def matchesFrom.simps errorPatterns_def)
      with False show False by simp
    qed
    ultimately show ?thesis by simp
  qed
  with runs_ok [OF assms] show ?thesis by simp
qed

theorem C8_nonempty_excerpt_witness:
  "toStringUtf8 (Str (js ''x'')) = Inr (js ''x'')
   \<and> extractErrorsFromLogs (Str (js ''x'')) = Inr (js ''x'') \<and> js ''x'' \<noteq> []"
proof -
  have h: "toStringUtf8 (Str (js ''x'')) = Inr (js ''x'')"
    by (simp add: toStringUtf8_def)
  have "extractErrorsFromLogs (Str (js ''x'')) = Inr (js ''x'')"
    by code_simp
  with C8_nonempty_excerpt [OF h] h show ?thesis by (auto simp: js_def)
qed

lemma scenario_decoded: "bufferToString scenarioBytes = scenarioLog"
  by (simp add: bufferToString_def scenarioBytes_def scenarioLog_def ascii_def js_def
      utf16Encode_def LF_def)

lemma scenario_excerpt:
  "extractErrorExcerpt scenarioLog =
     js ''Error: disk full'' @ [LF] @ js ''ERROR: retry failed'' @ [LF]
       @ js ''Error: disk full'' @ [LF] @ js ''ERROR: retry failed''"
  by code_simp

lemma scenario_result:
  "extractErrorsFromLogs (Buffer scenarioBytes) =
     Inr (js ''Error: disk full'' @ [LF] @ js ''ERROR: retry failed'' @ [LF]
            @ js ''Error: disk full'' @ [LF] @ js ''ERROR: retry failed'')"
proof -
  have "toStringUtf8 (Buffer scenarioBytes) = Inr scenarioLog"
    by (simp add: toStringUtf8_def scenario_decoded)
  from runs_ok [OF this] scenario_excerpt show ?thesis by simp
qed

text \<open>
  C1, as the specification states it, fails at its own scenario: every pattern has the
  flag \<open>i\<close>, so \<open>/Error:.+/gi\<close> and \<open>/ERROR:.+/gi\<close> both match both lines, and the result
  has four lines, not two.
\<close>

theorem C1_scenario_counterexample:
  "toStringUtf8 (Buffer scenarioBytes) = Inr scenarioLog
   \<and> extractErrorsFromLogs (Buffer scenarioBytes)
       \<noteq> Inr (js ''Error: disk full'' @ [LF] @ js ''ERROR: retry failed'')"
proof -
  have "js ''Error: disk full'' @ [LF] @ js ''ERROR: retry failed'' @ [LF]
            @ js ''Error: disk full'' @ [LF] @ js ''ERROR: retry failed''
        \<noteq> js ''Error: disk full'' @ [LF] @ js ''ERROR: retry failed''"
    by (simp add: js_def)
  then show ?thesis
    by (simp add: scenario_result toStringUtf8_def scenario_decoded)
qed

text \<open>
  C1, amended. For the scenario's log text the result is the four lines
  \<open>Error: disk full\<close>, \<open>ERROR: retry failed\<close>, \<open>Error: disk full\<close>, \<open>ERROR: retry failed\<close>.
  In general the collected matches are the matches of the first pattern, then those of
  the second, and so on in the declared order; the matches of one pattern are the
  substrings at the spans found by its search, and these spans are in document order
  (each ends before the next begins), each is a match of the pattern, and every index
  where the pattern matches lies inside one of them.
\<close>

theorem C1_pattern_group_order:
  "extractErrorsFromLogs (Buffer scenarioBytes) =
     Inr (js ''Error: disk full'' @ [LF] @ js ''ERROR: retry failed'' @ [LF]
            @ js ''Error: disk full'' @ [LF] @ js ''ERROR: retry failed'')
   \<and> collectErrors logText = concat (map (\<lambda>pattern. matchStrings pattern logText) errorPatterns)
   \<and> matchStrings pattern logText
       = map (\<lambda>(b, e). substring logText b e) (matchesFrom pattern logText 0)
   \<and> sorted_wrt (\<lambda>x y. snd x \<le> fst y) (matchesFrom pattern logText 0)
   \<and> (\<forall>(b, e) \<in> set (matchesFrom pattern logText 0). matchAt pattern logText b = Some e)
   \<and> (matchAt pattern logText j \<noteq> None \<longrightarrow>
        (\<exists>(b, e) \<in> set (matchesFrom pattern logText 0). b \<le> j \<and> j < e))"
proof -
  have "\<forall>(b, e) \<in> set (matchesFrom pattern logText 0). matchAt pattern logText b = Some e"
    using matchesFrom_span [of _ _ pattern logText 0] by auto
  moreover have "matchAt pattern logText j \<noteq> None \<longrightarrow>
        (\<exists>(b, e) \<in> set (matchesFrom pattern logText 0). b \<le> j \<and> j < e)"
    using matchesFrom_complete [of 0 j pattern logText] by simp
  moreover note scenario_result collectErrors_concat [of logText]
    matchesFrom_sorted [of pattern logText 0]
  ultimately show ?thesis
    by (simp only: matchStrings_def simp_thms)
qed

theorem C1_pattern_group_order_witness:
  "matchAt (js ''ERROR:'') scenarioLog 25 \<noteq> None
   \<and> list_ex (\<lambda>(b, e). b \<le> 25 \<and> 25 < e) (matchesFrom (js ''ERROR:'') scenarioLog 0)
   \<and> collectErrors scenarioLog
       = [js ''Error: disk full'', js ''ERROR: retry failed'',
          js ''Error: disk full'', js ''ERROR: retry failed'']"
proof -
  have h: "matchAt (js ''ERROR:'') scenarioLog 25 \<noteq> None"
    by code_simp
  have c: "collectErrors scenarioLog
       = [js ''Error: disk full'', js ''ERROR: retry failed'',
          js ''Error: disk full'', js ''ERROR: retry failed'']"
    by code_simp
  from C1_pattern_group_order [of scenarioLog "js ''ERROR:''" 25] h
  have "\<exists>(b, e) \<in> set (matchesFrom (js ''ERROR:'') scenarioLog 0). b \<le> 25 \<and> 25 < e"
    by blast
  then have "list_ex (\<lambda>(b, e). b \<le> 25 \<and> 25 < e) (matchesFrom (js ''ERROR:'') scenarioLog 0)"
    by (simp add: list_ex_iff)
  with h c show ?thesis by simp
qed

lemma join_terminators:
  "\<forall>x \<in> set xs. \<forall>c \<in> set x. \<not> isLineTerminator c \<Longrightarrow>
     length (filter isLineTerminator (join [LF] xs)) = length xs - 1"
proof (induction "[LF]" xs rule: join.induct)
  case (3 x y ys)
  then have "filter isLineTerminator x = []" by (auto simp: filter_empty_conv)
  with 3 show ?case by (simp add: isLineTerminator_def LF_def)
qed (auto simp: filter_empty_conv)

text \<open>
  C2, as the specification states it, fails twice. The patterns are not anchored at the
  start of a line: in \<open>x Error: y\<close> no line begins with a marker, and yet both
  \<open>/Error:.+/gi\<close> and \<open>/ERROR:.+/gi\<close> match. And \<open>.+\<close> needs a character after the
  marker: the text \<open>Error:\<close>, newline, \<open>ok\<close> has a line that begins with a marker, no
  pattern matches, and the result is the tail of the text, the line \<open>ok\<close> included.
\<close>

theorem C2_line_start_counterexample:
  "filter beginsWithMarker (splitOn LF (js ''x Error: y'')) = []
   \<and> collectErrors (js ''x Error: y'') = [js ''Error: y'', js ''Error: y'']
   \<and> extractErrorsFromLogs (Str (js ''x Error: y'')) = Inr (js ''Error: y'' @ [LF] @ js ''Error: y'')
   \<and> filter beginsWithMarker (splitOn LF (js ''Error:'' @ [LF] @ js ''ok'')) = [js ''Error:'']
   \<and> collectErrors (js ''Error:'' @ [LF] @ js ''ok'') = []
   \<and> extractErrorsFromLogs (Str (js ''Error:'' @ [LF] @ js ''ok''))
       = Inr (js ''Error:'' @ [LF] @ js ''ok'')"
proof -
  have "filter beginsWithMarker (splitOn LF (js ''x Error: y'')) = []"
    by code_simp
  moreover have "collectErrors (js ''x Error: y'') = [js ''Error: y'', js ''Error: y'']"
    by code_simp
  moreover have "extractErrorsFromLogs (Str (js ''x Error: y''))
      = Inr (js ''Error: y'' @ [LF] @ js ''Error: y'')"
    by code_simp
  moreover have "filter beginsWithMarker (splitOn LF (js ''Error:'' @ [LF] @ js ''ok''))
      = [js ''Error:'']"
    by code_simp
  moreover have "collectErrors (js ''Error:'' @ [LF] @ js ''ok'') = []"
    by code_simp
  moreover have "extractErrorsFromLogs (Str (js ''Error:'' @ [LF] @ js ''ok''))
       = Inr (js ''Error:'' @ [LF] @ js ''ok'')"
    by code_simp
  ultimately show ?thesis by simp
qed

lemma span_collected:
  assumes "marker \<in> set errorPatterns" and "(b, e) \<in> set (matchesFrom marker s 0)"
  shows "substring s b e \<in> set (collectErrors s)"
proof -
  from assms(2) have "substring s b e \<in> set (matchStrings marker s)"
    by (force simp: matchStrings_def)
  with assms(1) show ?thesis
    unfolding collectErrors_concat by auto
qed

text \<open>
  C2, amended. Every match begins at a marker (in any letter case) found anywhere in
  the log text and runs to the end of that line, with at least one character after the
  marker: the match holds no line terminator and ends at the end of the text or at a
  line terminator. Conversely, every place where a marker occurs and is followed by a
  character other than a line terminator lies inside a collected match of that marker's
  pattern; the match begins there or at an earlier occurrence of the marker on the same
  line, as in \<open>Error: Error: x\<close>, where the one match begins at index 0 and holds the
  occurrence at index 7. Whenever there is such a place, the result is not empty and
  comes from the matches, not from the tail of the text: its lines are exactly the
  first 50 collected matches.
\<close>

theorem C2_marker_within_line:
  assumes "toStringUtf8 v = Inr logText"
  shows "(m \<in> set (collectErrors logText) \<longrightarrow>
            (\<exists>marker \<in> set errorPatterns. \<exists>b e.
                b < e \<and> e \<le> length logText \<and> m = substring logText b e
              \<and> matchLiteral marker (drop b logText) \<and> length marker < length m
              \<and> (\<forall>c \<in> set m. \<not> isLineTerminator c)
              \<and> (e = length logText \<or> isLineTerminator (logText ! e))))
       \<and> (marker \<in> set errorPatterns \<and> matchLiteral marker (drop i logText)
            \<and> i + length marker < length logText
            \<and> \<not> isLineTerminator (logText ! (i + length marker)) \<longrightarrow>
            (\<exists>b e. b \<le> i \<and> i < e \<and> e \<le> length logText
               \<and> (b, e) \<in> set (matchesFrom marker logText 0)
               \<and> substring logText b e \<in> set (collectErrors logText)
               \<and> matchLiteral marker (drop b logText)
               \<and> (\<forall>c \<in> set (substring logText b e). \<not> isLineTerminator c)
               \<and> (e = length logText \<or> isLineTerminator (logText ! e)))
          \<and> (\<exists>out. extractErrorsFromLogs v = Inr out \<and> out \<noteq> []
               \<and> out = join [LF] (take 50 (collectErrors logText))
               \<and> splitOn LF out = take 50 (collectErrors logText)
               \<and> set (splitOn LF out) \<subseteq> set (collectErrors logText)))"
proof (intro conjI impI)
  assume "m \<in> set (collectErrors logText)"
  from collectErrors_elem [OF this] obtain marker b e
    where mk: "marker \<in> set errorPatterns" and at: "matchAt marker logText b = Some e"
      and m: "m = substring logText b e" by blast
  from at have "matchLiteral marker (drop b logText)"
    by (simp add: matchAt_def split: if_splits)
  moreover note matchAt_bounds [OF at] matchAt_shape(2,5) [OF at]
    match_no_terminator [OF mk at]
  ultimately have "b < e \<and> e \<le> length logText \<and> m = substring logText b e
              \<and> matchLiteral marker (drop b logText) \<and> length marker < length m
              \<and> (\<forall>c \<in> set m. \<not> isLineTerminator c)
              \<and> (e = length logText \<or> isLineTerminator (logText ! e))"
    using m by simp
  with mk show "\<exists>marker \<in> set errorPatterns. \<exists>b e.
                b < e \<and> e \<le> length logText \<and> m = substring logText b e
              \<and> matchLiteral marker (drop b logText) \<and> length marker < length m
              \<and> (\<forall>c \<in> set m. \<not> isLineTerminator c)
              \<and> (e = length logText \<or> isLineTerminator (logText ! e))"
    by blast
next
  assume a: "marker \<in> set errorPatterns \<and> matchLiteral marker (drop i logText)
            \<and> i + length marker < length logText
            \<and> \<not> isLineTerminator (logText ! (i + length marker))"
  then have at: "matchAt marker logText i \<noteq> None"
    using matchAt_iff [of marker logText i] by blast
  from a have mk: "marker \<in> set errorPatterns" by simp
  from matchesFrom_complete [of 0 i marker logText] at obtain b e
    where sp: "(b, e) \<in> set (matchesFrom marker logText 0)" and cover: "b \<le> i" "i < e"
    by auto
  from matchesFrom_span [OF sp] have atb: "matchAt marker logText b = Some e" by simp
  from atb have "matchLiteral marker (drop b logText)"
    by (simp add: matchAt_def split: if_splits)
  moreover note cover sp span_collected [OF mk sp] matchAt_bounds [OF atb]
    match_no_terminator [OF mk atb] matchAt_shape(5) [OF atb]
  ultimately show "\<exists>b e. b \<le> i \<and> i < e \<and> e \<le> length logText
               \<and> (b, e) \<in> set (matchesFrom marker logText 0)
               \<and> substring logText b e \<in> set (collectErrors logText)
               \<and> matchLiteral marker (drop b logText)
               \<and> (\<forall>c \<in> set (substring logText b e). \<not> isLineTerminator c)
               \<and> (e = length logText \<or> isLineTerminator (logText ! e))"
    by blast
next
  assume a: "marker \<in> set errorPatterns \<and> matchLiteral marker (drop i logText)
            \<and> i + length marker < length logText
            \<and> \<not> isLineTerminator (logText ! (i + length marker))"
  then have at: "matchAt marker logText i \<noteq> None"
    using matchAt_iff [of marker logText i] by blast
  from a have "marker \<in> set errorPatterns" by simp
  from collectErrors_nonempty [OF this at] have ne: "collectErrors logText \<noteq> []" .
  note ex = excerpt_matched [OF ne]
  have "set (take 50 (collectErrors logText)) \<subseteq> set (collectErrors logText)"
    by (rule set_take_subset)
  with ex runs_ok [OF assms]
  show "\<exists>out. extractErrorsFromLogs v = Inr out \<and> out \<noteq> []
               \<and> out = join [LF] (take 50 (collectErrors logText))
               \<and> splitOn LF out = take 50 (collectErrors logText)
               \<and> set (splitOn LF out) \<subseteq> set (collectErrors logText)"
    by simp
qed

theorem C2_marker_within_line_witness:
  "toStringUtf8 (Str (js ''Error: Error: x'')) = Inr (js ''Error: Error: x'')
   \<and> js ''Error: Error: x'' \<in> set (collectErrors (js ''Error: Error: x''))
   \<and> js ''Error:'' \<in> set errorPatterns
   \<and> matchLiteral (js ''Error:'') (drop 7 (js ''Error: Error: x''))
   \<and> 7 + length (js ''Error:'') < length (js ''Error: Error: x'')
   \<and> \<not> isLineTerminator (js ''Error: Error: x'' ! (7 + length (js ''Error:'')))
   \<and> matchesFrom (js ''Error:'') (js ''Error: Error: x'') 0 = [(0, 15)]
   \<and> list_ex (\<lambda>(b, e). b \<le> 7 \<and> 7 < e) (matchesFrom (js ''Error:'') (js ''Error: Error: x'') 0)
   \<and> collectErrors (js ''Error: Error: x'') = [js ''Error: Error: x'', js ''Error: Error: x'']
   \<and> extractErrorsFromLogs (Str (js ''Error: Error: x''))
       = Inr (join [LF] (take 50 (collectErrors (js ''Error: Error: x''))))"
proof -
  have h: "toStringUtf8 (Str (js ''Error: Error: x'')) = Inr (js ''Error: Error: x'')"
    by (simp add: toStringUtf8_def)
  have c: "collectErrors (js ''Error: Error: x'') = [js ''Error: Error: x'', js ''Error: Error: x'']"
    by code_simp
  then have m: "js ''Error: Error: x'' \<in> set (collectErrors (js ''Error: Error: x''))"
    by simp
  have sp: "matchesFrom (js ''Error:'') (js ''Error: Error: x'') 0 = [(0, 15)]"
    by code_simp
  have a: "js ''Error:'' \<in> set errorPatterns
            \<and> matchLiteral (js ''Error:'') (drop 7 (js ''Error: Error: x''))
            \<and> 7 + length (js ''Error:'') < length (js ''Error: Error: x'')
            \<and> \<not> isLineTerminator (js ''Error: Error: x'' ! (7 + length (js ''Error:'')))"
    by code_simp
  note inst = C2_marker_within_line [OF h, of "js ''Error: Error: x''" "js ''Error:''" 7]
  from inst a
  have "\<exists>b e. b \<le> 7 \<and> 7 < e
          \<and> (b, e) \<in> set (matchesFrom (js ''Error:'') (js ''Error: Error: x'') 0)"
    by blast
  then have cover: "list_ex (\<lambda>(b, e). b \<le> 7 \<and> 7 < e)
      (matchesFrom (js ''Error:'') (js ''Error: Error: x'') 0)"
    unfolding list_ex_iff by blast
  from inst a
  have "extractErrorsFromLogs (Str (js ''Error: Error: x''))
       = Inr (join [LF] (take 50 (collectErrors (js ''Error: Error: x''))))"
    by blast
  with h m a sp cover c show ?thesis by blast
qed

text \<open>
  C5. When the result comes from pattern matches it has exactly
  \<open>min 50 (number of matches)\<close> lines, so never more than 50; it holds one line
  terminator fewer than it has lines.
\<close>

theorem C5_at_most_50_lines:
  assumes "toStringUtf8 v = Inr logText" and "collectErrors logText \<noteq> []"
  shows "\<exists>out. extractErrorsFromLogs v = Inr out
           \<and> length (splitOn LF out) = min 50 (length (collectErrors logText))
           \<and> length (splitOn LF out) \<le> 50
           \<and> length (filter isLineTerminator out) < 50"
proof -
  note ex = excerpt_matched [OF assms(2)]
  have "\<forall>x \<in> set (take 50 (collectErrors logText)). \<forall>c \<in> set x. \<not> isLineTerminator c"
    using collectErrors_lines(2) set_take_subset [of 50 "collectErrors logText"] by blast
  then have "length (filter isLineTerminator (join [LF] (take 50 (collectErrors logText))))
      = length (take 50 (collectErrors logText)) - 1"
    by (rule join_terminators)
  moreover have "length (take 50 (collectErrors logText)) \<le> 50" by simp
  moreover from assms(2) have "0 < length (take 50 (collectErrors logText))" by simp
  ultimately have "length (filter isLineTerminator (join [LF] (take 50 (collectErrors logText)))) < 50"
    by arith
  then have "length (filter isLineTerminator (extractErrorExcerpt logText)) < 50"
    using ex(1) by simp
  moreover have "length (splitOn LF (extractErrorExcerpt logText))
      = min 50 (length (collectErrors logText))"
    using ex(3) by (simp add: min.commute)
  ultimately show ?thesis
    using runs_ok [OF assms(1)] by simp
qed

theorem C5_at_most_50_lines_witness:
  "toStringUtf8 (Str (js ''fatal: no space'')) = Inr (js ''fatal: no space'')
   \<and> collectErrors (js ''fatal: no space'') \<noteq> []
   \<and> extractErrorsFromLogs (Str (js ''fatal: no space'')) = Inr (js ''fatal: no space'')
   \<and> length (splitOn LF (js ''fatal: no space'')) \<le> 50"
proof -
  have h1: "toStringUtf8 (Str (js ''fatal: no space'')) = Inr (js ''fatal: no space'')"
    by (simp add: toStringUtf8_def)
  have h2: "collectErrors (js ''fatal: no space'') \<noteq> []"
    by code_simp
  have r: "extractErrorsFromLogs (Str (js ''fatal: no space'')) = Inr (js ''fatal: no space'')"
    by code_simp
  from C5_at_most_50_lines [OF h1 h2] r
  have "length (splitOn LF (js ''fatal: no space'')) \<le> 50" by auto
  with h1 h2 r show ?thesis by simp
qed

text \<open>
  C9, as the specification states it, fails twice. The byte \<open>0xFF\<close> occurs in no UTF-8
  text; \<open>toString\<close> does not throw on it but decodes it to U+FFFD, and the result is
  the tail of that text, not the string \<open>Unable to parse log content\<close>. And the method
  does raise for some argument: when \<open>toString\<close> throws \<open>null\<close>, the \<open>catch\<close> block reads
  \<open>error.message\<close> of \<open>null\<close>, and that \<open>TypeError\<close> leaves the method.
\<close>

theorem C9_malformed_bytes_counterexample:
  "extractErrorsFromLogs (Buffer [0xFF]) = Inr [0xFFFD]
   \<and> extractErrorsFromLogs (Buffer [0xFF]) \<noteq> Inr (js ''Unable to parse log content'')
   \<and> extractErrorsFromLogs (Object (Throws ThrownNull)) = Inl TypeError"
proof -
  have "toStringUtf8 (Buffer [0xFF]) = Inr [0xFFFD]"
    by (simp add: toStringUtf8_def bufferToString_def utf16Encode_def)
  moreover have "extractErrorExcerpt [0xFFFD] = [0xFFFD]"
    by code_simp
  ultimately have "extractErrorsFromLogs (Buffer [0xFF]) = Inr [0xFFFD]"
    using runs_ok by simp
  moreover have "extractErrorsFromLogs (Object (Throws ThrownNull)) = Inl TypeError"
    by (simp add: extractErrorsFromLogs_def tryExtract_def toStringUtf8_def readMessage_def)
  ultimately show ?thesis by (simp add: js_def)
qed

text \<open>
  C9, amended. For a buffer, a string, \<open>undefined\<close> and \<open>null\<close> the method does not
  raise: it returns a string. Whenever the \<open>try\<close> block throws an \<open>Error\<close> object, the
  method returns \<open>Unable to parse log content\<close> instead of raising; this is the case for
  \<open>undefined\<close> and \<open>null\<close>, where reading the text of the argument throws a \<open>TypeError\<close>.
  The bytes of a buffer never make it throw, whether they are well-formed or not: the
  result is the excerpt of the decoded text, in which U+FFFD stands for each ill-formed
  part; a string gives the excerpt of the string itself.
\<close>

theorem C9_no_raise_on_buffers_and_strings:
  "(v = Undefined \<or> v = Null \<or> v = Buffer bs \<or> v = Str s \<longrightarrow>
      (\<exists>out. extractErrorsFromLogs v = Inr out))
   \<and> (tryExtract v = Inl (ThrownError err) \<longrightarrow>
        extractErrorsFromLogs v = Inr (js ''Unable to parse log content''))
   \<and> tryExtract Undefined = Inl (ThrownError TypeError)
   \<and> tryExtract Null = Inl (ThrownError TypeError)
   \<and> extractErrorsFromLogs Undefined = Inr (js ''Unable to parse log content'')
   \<and> extractErrorsFromLogs Null = Inr (js ''Unable to parse log content'')
   \<and> extractErrorsFromLogs (Buffer bs) = Inr (extractErrorExcerpt (bufferToString bs))
   \<and> extractErrorsFromLogs (Str s) = Inr (extractErrorExcerpt s)"
proof -
  have u: "tryExtract Undefined = Inl (ThrownError TypeError)"
    and n: "tryExtract Null = Inl (ThrownError TypeError)"
    by (simp_all add: tryExtract_def toStringUtf8_def)
  have caught: "extractErrorsFromLogs w = Inr (js ''Unable to parse log content'')"
    if "tryExtract w = Inl (ThrownError e)" for w e
    using that by (simp add: extractErrorsFromLogs_def readMessage_def)
  have b: "extractErrorsFromLogs (Buffer bs) = Inr (extractErrorExcerpt (bufferToString bs))"
    by (rule runs_ok) (simp add: toStringUtf8_def)
  have t: "extractErrorsFromLogs (Str s) = Inr (extractErrorExcerpt s)"
    by (rule runs_ok) (simp add: toStringUtf8_def)
  have "\<exists>out. extractErrorsFromLogs v = Inr out"
    if "v = Undefined \<or> v = Null \<or> v = Buffer bs \<or> v = Str s"
    using that caught [OF u] caught [OF n] b t by auto
  with caught [of v err] caught [OF u] caught [OF n] u n b t show ?thesis
    by blast
qed

theorem C9_no_raise_on_buffers_and_strings_witness:
  "tryExtract Null = Inl (ThrownError TypeError)
   \<and> extractErrorsFromLogs Null = Inr (js ''Unable to parse log content'')
   \<and> tryExtract (Object (Throws (ThrownError TypeError))) = Inl (ThrownError TypeError)
   \<and> extractErrorsFromLogs (Object (Throws (ThrownError TypeError)))
       = Inr (js ''Unable to parse log content'')
   \<and> extractErrorsFromLogs (Buffer [0xFF]) = Inr (extractErrorExcerpt (bufferToString [0xFF]))
   \<and> extractErrorsFromLogs (Buffer [0xFF]) = Inr [0xFFFD]"
proof -
  have h: "tryExtract (Object (Throws (ThrownError TypeError))) = Inl (ThrownError TypeError)"
    by (simp add: tryExtract_def toStringUtf8_def)
  have d: "bufferToString [0xFF] = [0xFFFD]"
    by (simp add: bufferToString_def utf16Encode_def)
  have x: "extractErrorExcerpt [0xFFFD] = [0xFFFD]"
    by code_simp
  note inst = C9_no_raise_on_buffers_and_strings
  from inst [of "Object (Throws (ThrownError TypeError))" "[0xFF]" "[]" TypeError] h
  have "extractErrorsFromLogs (Object (Throws (ThrownError TypeError)))
       = Inr (js ''Unable to parse log content'')"
    by blast
  moreover from inst [of Null "[0xFF]" "[]" TypeError]
  have "tryExtract Null = Inl (ThrownError TypeError)"
    and "extractErrorsFromLogs Null = Inr (js ''Unable to parse log content'')"
    and "extractErrorsFromLogs (Buffer [0xFF]) = Inr (extractErrorExcerpt (bufferToString [0xFF]))"
    by blast+
  ultimately show ?thesis using h d x by simp
qed

section \<open>Properties of the push-mode endpoint\<close>

lemma analyze_falsy: "\<not> truthy (reqBody ''errorLog'') \<Longrightarrow> analyze now reqBody = Inr missingField"
  by (simp add: analyze_def missingField_def)

lemma analyze_string:
  "reqBody ''errorLog'' = Some (JStr s) \<Longrightarrow> s \<noteq> [] \<Longrightarrow>
     analyze now reqBody = Inr (received now reqBody)"
  by (simp add: analyze_def received_def)

lemma analyze_truthy_not_400:
  "truthy (reqBody ''errorLog'') \<Longrightarrow> analyze now reqBody \<noteq> Inr missingField"
  by (auto simp: analyze_def missingField_def split: sum.splits)

text \<open>
  C3, as the specification states it, fails: a body whose \<open>errorLog\<close> field is present
  and is the empty string is rejected with the 400 answer.
\<close>

theorem C3_present_but_rejected_counterexample:
  "[''errorLog'' \<mapsto> JStr []] ''errorLog'' \<noteq> None
   \<and> analyze (js ''2024-01-01T00:00:00.000Z'') [''errorLog'' \<mapsto> JStr []] = Inr missingField"
  by (simp add: analyze_falsy)

text \<open>
  C3, amended. A push-mode request is rejected with the 400 answer
  \<open>{error: "Missing required field: errorLog"}\<close> if and only if its \<open>errorLog\<close> field is
  absent or falsy. A request whose \<open>errorLog\<close> is a non-empty string is accepted with a
  200 answer carrying the status \<open>received\<close> and a metadata object that echoes
  \<open>runId\<close>, \<open>runUrl\<close>, \<open>repository\<close> and \<open>failedJobs\<close>, undefined where the body has no
  such field.
\<close>

theorem C3_rejected_iff_falsy:
  "(analyze now reqBody = Inr missingField \<longleftrightarrow> \<not> truthy (reqBody ''errorLog''))
   \<and> (reqBody ''errorLog'' = None \<longrightarrow> analyze now reqBody = Inr missingField)
   \<and> (reqBody ''errorLog'' = Some (JStr s) \<and> s \<noteq> [] \<longrightarrow>
        analyze now reqBody = Inr (received now reqBody)
        \<and> statusCode (received now reqBody) = 200
        \<and> body (received now reqBody)
            = Received (js ''received'')
                (js ''Failure data logged. AI analysis not yet implemented.'') now
                \<lparr>md_runId = reqBody ''runId'', md_runUrl = reqBody ''runUrl'',
                 md_repository = reqBody ''repository'',
                 md_failedJobs = reqBody ''failedJobs''\<rparr>)"
proof (intro conjI impI)
  show "analyze now reqBody = Inr missingField \<longleftrightarrow> \<not> truthy (reqBody ''errorLog'')"
    using analyze_falsy [of reqBody now] analyze_truthy_not_400 [of reqBody now] by blast
next
  assume "reqBody ''errorLog'' = None"
  then show "analyze now reqBody = Inr missingField"
    by (simp add: analyze_falsy)
next
  assume "reqBody ''errorLog'' = Some (JStr s) \<and> s \<noteq> []"
  then show "analyze now reqBody = Inr (received now reqBody)"
    by (simp add: analyze_string)
qed (simp_all add: received_def)

theorem C3_rejected_iff_falsy_witness:
  "[''errorLog'' \<mapsto> JStr (js ''x'')] ''errorLog'' = Some (JStr (js ''x'')) \<and> js ''x'' \<noteq> []
   \<and> analyze (js ''2024-01-01T00:00:00.000Z'') [''errorLog'' \<mapsto> JStr (js ''x'')]
       = Inr \<lparr>statusCode = 200,
              body = Received (js ''received'')
                       (js ''Failure data logged. AI analysis not yet implemented.'')
                       (js ''2024-01-01T00:00:00.000Z'')
                       \<lparr>md_runId = None, md_runUrl = None,
                        md_repository = None, md_failedJobs = None\<rparr>\<rparr>
   \<and> Map.empty ''errorLog'' = (None :: json option)
   \<and> analyze (js ''2024-01-01T00:00:00.000Z'') Map.empty = Inr missingField"
proof -
  have h: "[''errorLog'' \<mapsto> JStr (js ''x'')] ''errorLog'' = Some (JStr (js ''x'')) \<and> js ''x'' \<noteq> []"
    by (simp add: js_def)
  have e: "Map.empty ''errorLog'' = (None :: json option)" by simp
  from C3_rejected_iff_falsy [of "js ''2024-01-01T00:00:00.000Z''" "[''errorLog'' \<mapsto> JStr (js ''x'')]" "js ''x''"] h
  have "analyze (js ''2024-01-01T00:00:00.000Z'') [''errorLog'' \<mapsto> JStr (js ''x'')]
      = Inr (received (js ''2024-01-01T00:00:00.000Z'') [''errorLog'' \<mapsto> JStr (js ''x'')])"
    by blast
  moreover from C3_rejected_iff_falsy [of "js ''2024-01-01T00:00:00.000Z''" Map.empty] e
  have "analyze (js ''2024-01-01T00:00:00.000Z'') Map.empty = Inr missingField"
    by blast
  ultimately show ?thesis using h by (simp add: received_def)
qed

text \<open>
  C10. A request whose \<open>errorLog\<close> field is present but is the empty string, zero,
  \<open>false\<close> or \<open>null\<close> gets the same 400 answer as the request without the field.
\<close>

theorem C10_falsy_errorLog_rejected:
  assumes "reqBody ''errorLog'' = Some value"
    and "value = JStr [] \<or> value = JNum 0 \<or> value = JBool False \<or> value = JNull"
  shows "analyze now reqBody = Inr missingField
         \<and> analyze now reqBody = analyze now (reqBody(''errorLog'' := None))
         \<and> statusCode missingField = 400
         \<and> body missingField = ErrorBody (js ''Missing required field: errorLog'')"
proof -
  from assms have "\<not> truthy (reqBody ''errorLog'')" by auto
  then have "analyze now reqBody = Inr missingField" by (rule analyze_falsy)
  moreover have "analyze now (reqBody(''errorLog'' := None)) = Inr missingField"
    by (simp add: analyze_falsy)
  ultimately show ?thesis by (simp add: missingField_def)
qed

theorem C10_falsy_errorLog_rejected_witness:
  "[''runId'' \<mapsto> JNum 7, ''errorLog'' \<mapsto> JNum 0] ''errorLog'' = Some (JNum 0)
   \<and> analyze (js ''2024-01-01T00:00:00.000Z'') [''runId'' \<mapsto> JNum 7, ''errorLog'' \<mapsto> JNum 0]
       = Inr \<lparr>statusCode = 400, body = ErrorBody (js ''Missing required field: errorLog'')\<rparr>
   \<and> analyze (js ''2024-01-01T00:00:00.000Z'') [''runId'' \<mapsto> JNum 7, ''errorLog'' \<mapsto> JNum 0]
       = analyze (js ''2024-01-01T00:00:00.000Z'') [''runId'' \<mapsto> JNum 7]"
proof -
  have h: "[''runId'' \<mapsto> JNum 7, ''errorLog'' \<mapsto> JNum 0] ''errorLog'' = Some (JNum 0)"
    by simp
  have m: "([''runId'' \<mapsto> JNum 7, ''errorLog'' \<mapsto> JNum 0])(''errorLog'' := None) = [''runId'' \<mapsto> JNum 7]"
    by simp
  have v: "JNum 0 = JStr [] \<or> JNum 0 = JNum 0 \<or> JNum 0 = JBool False \<or> JNum 0 = JNull"
    by simp
  note c = C10_falsy_errorLog_rejected
         [of "[''runId'' \<mapsto> JNum 7, ''errorLog'' \<mapsto> JNum 0]" "JNum 0"
             "js ''2024-01-01T00:00:00.000Z''", OF h v]
  from c have "analyze (js ''2024-01-01T00:00:00.000Z'') [''runId'' \<mapsto> JNum 7, ''errorLog'' \<mapsto> JNum 0]
      = Inr missingField"
    by (rule conjunct1)
  then have a: "analyze (js ''2024-01-01T00:00:00.000Z'') [''runId'' \<mapsto> JNum 7, ''errorLog'' \<mapsto> JNum 0]
      = Inr \<lparr>statusCode = 400, body = ErrorBody (js ''Missing required field: errorLog'')\<rparr>"
    by (simp only: missingField_def)
  from c have "analyze (js ''2024-01-01T00:00:00.000Z'') [''runId'' \<mapsto> JNum 7, ''errorLog'' \<mapsto> JNum 0]
      = analyze (js ''2024-01-01T00:00:00.000Z'')
          (([''runId'' \<mapsto> JNum 7, ''errorLog'' \<mapsto> JNum 0])(''errorLog'' := None))"
    by blast
  then have b: "analyze (js ''2024-01-01T00:00:00.000Z'') [''runId'' \<mapsto> JNum 7, ''errorLog'' \<mapsto> JNum 0]
      = analyze (js ''2024-01-01T00:00:00.000Z'') [''runId'' \<mapsto> JNum 7]"
    by (simp only: m)
  from h a b show ?thesis by blast
qed

section \<open>Properties of the run locator and of the failure summarizer\<close>

lemma js_nonempty: "js (c # cs) \<noteq> []"
  by (simp add: js_def)

lemma getWorkflowRuns_failed:
  "getWorkflowRuns axiosGet owner repo workflowId (Some (js ''completed'')) (Some (js ''failure''))
     = (case axiosGet (failedRunsRequest owner repo workflowId) of
          Inl error \<Rightarrow> Inl error
        | Inr workflow_runs \<Rightarrow> Inr (case workflow_runs of None \<Rightarrow> [] | Some runs \<Rightarrow> runs))"
  by (simp add: getWorkflowRuns_def failedRunsRequest_def Let_def js_nonempty)

text \<open>
  C6. When the API answers the request with a non-empty sequence of runs, the result is
  its element at index 0, whatever the order of the sequence; when the sequence is empty
  (or the answer has none) the result is \<open>null\<close>, a normal result and not an error.
\<close>

theorem C6_first_run_or_null:
  "(axiosGet (failedRunsRequest owner repo workflowId) = Inr (Some runs) \<and> runs \<noteq> [] \<longrightarrow>
      getLastFailedRun axiosGet owner repo workflowId = Inr (Some (runs ! 0))
      \<and> runs ! 0 = hd runs)
   \<and> (axiosGet (failedRunsRequest owner repo workflowId) = Inr (Some []) \<longrightarrow>
      getLastFailedRun axiosGet owner repo workflowId = Inr None)
   \<and> (axiosGet (failedRunsRequest owner repo workflowId) = Inr None \<longrightarrow>
      getLastFailedRun axiosGet owner repo workflowId = Inr None)"
  by (auto simp: getLastFailedRun_def getWorkflowRuns_failed hd_conv_nth)

theorem C6_first_run_or_null_witness:
  "(\<lambda>request. Inr (Some [olderRun, newerRun]) :: apiError + workflowRun list option)
       (failedRunsRequest (js ''o'') (js ''r'') (js ''ci.yml'')) = Inr (Some [olderRun, newerRun])
   \<and> [olderRun, newerRun] \<noteq> []
   \<and> getLastFailedRun (\<lambda>request. Inr (Some [olderRun, newerRun])) (js ''o'') (js ''r'') (js ''ci.yml'')
       = Inr (Some olderRun)
   \<and> getLastFailedRun (\<lambda>request. Inr (Some [])) (js ''o'') (js ''r'') (js ''ci.yml'') = Inr None"
proof -
  from C6_first_run_or_null
         [of "\<lambda>request. Inr (Some [olderRun, newerRun])" "js ''o''" "js ''r''" "js ''ci.yml''"
             "[olderRun, newerRun]"]
  have "getLastFailedRun (\<lambda>request. Inr (Some [olderRun, newerRun])) (js ''o'') (js ''r'') (js ''ci.yml'')
       = Inr (Some olderRun)"
    by simp
  moreover from C6_first_run_or_null
         [of "\<lambda>request. Inr (Some [])" "js ''o''" "js ''r''" "js ''ci.yml''"]
  have "getLastFailedRun (\<lambda>request. Inr (Some [])) (js ''o'') (js ''r'') (js ''ci.yml'') = Inr None"
    by simp
  ultimately show ?thesis by simp
qed

text \<open>
  C7. The report keeps exactly the jobs whose conclusion is \<open>failure\<close>, in their order,
  and in each of them exactly the steps whose conclusion is \<open>failure\<close>, in their order;
  \<open>failedJobsCount\<close> is the length of \<open>failedJobs\<close>; and two calls that fetch the same
  job sequence for the same run give equal reports.
\<close>

theorem C7_failed_jobs_and_steps:
  assumes "getWorkflowRunJobs axiosGet owner repo runIdText = Inr jobs"
  shows "\<exists>info. extractFailureInfo axiosGet owner repo rid runIdText = Inr info
           \<and> info = summarizeFailures rid jobs
           \<and> map fj_name (failedJobs info)
               = map job_name (filter (\<lambda>job. job_conclusion job = js ''failure'') jobs)
           \<and> map failedSteps (failedJobs info)
               = map (\<lambda>job. map summarizeStep
                               (filter (\<lambda>step. step_conclusion step = js ''failure'') (steps job)))
                   (filter (\<lambda>job. job_conclusion job = js ''failure'') jobs)
           \<and> map (\<lambda>fj. map fs_number (failedSteps fj)) (failedJobs info)
               = map (\<lambda>job. map step_number
                               (filter (\<lambda>step. step_conclusion step = js ''failure'') (steps job)))
                   (filter (\<lambda>job. job_conclusion job = js ''failure'') jobs)
           \<and> subseq (map fj_name (failedJobs info)) (map job_name jobs)
           \<and> list_all (\<lambda>fj. fj_conclusion fj = js ''failure''
                          \<and> list_all (\<lambda>fs. fs_conclusion fs = js ''failure'') (failedSteps fj))
                 (failedJobs info)
           \<and> failedJobsCount info = length (failedJobs info)
           \<and> (getWorkflowRunJobs axiosGet' owner' repo' runIdText' = Inr jobs \<longrightarrow>
                extractFailureInfo axiosGet' owner' repo' rid runIdText' = Inr info)"
proof -
  let ?failed = "filter (\<lambda>job. job_conclusion job = js ''failure'') jobs"
  have info: "extractFailureInfo axiosGet owner repo rid runIdText = Inr (summarizeFailures rid jobs)"
    using assms by (simp add: extractFailureInfo_def)
  have fj: "failedJobs (summarizeFailures rid jobs) = map summarizeJob ?failed"
    by (simp add: summarizeFailures_def Let_def)
  have names: "map fj_name (map summarizeJob ?failed) = map job_name ?failed"
    by (simp add: summarizeJob_def)
  have stps: "map failedSteps (map summarizeJob ?failed)
      = map (\<lambda>job. map summarizeStep
                      (filter (\<lambda>step. step_conclusion step = js ''failure'') (steps job))) ?failed"
    by (simp add: summarizeJob_def)
  have nums: "map (\<lambda>fj. map fs_number (failedSteps fj)) (map summarizeJob ?failed)
      = map (\<lambda>job. map step_number
                      (filter (\<lambda>step. step_conclusion step = js ''failure'') (steps job))) ?failed"
    by (simp add: summarizeJob_def summarizeStep_def comp_def)
  have sub: "subseq (map job_name ?failed) (map job_name jobs)"
    by (intro subseq_map subseq_filter_left)
  have concl: "list_all (\<lambda>fj. fj_conclusion fj = js ''failure''
                          \<and> list_all (\<lambda>fs. fs_conclusion fs = js ''failure'') (failedSteps fj))
                 (map summarizeJob ?failed)"
    by (simp add: list_all_iff summarizeJob_def summarizeStep_def)
  have cnt: "failedJobsCount (summarizeFailures rid jobs) = length (map summarizeJob ?failed)"
    by (simp add: summarizeFailures_def Let_def)
  have same: "getWorkflowRunJobs axiosGet' owner' repo' runIdText' = Inr jobs \<longrightarrow>
      extractFailureInfo axiosGet' owner' repo' rid runIdText' = Inr (summarizeFailures rid jobs)"
    by (simp add: extractFailureInfo_def)
  show ?thesis
    apply (rule exI [of _ "summarizeFailures rid jobs"])
    using info names stps nums sub concl cnt same
    by (simp only: fj simp_thms)
qed

theorem C7_failed_jobs_and_steps_witness:
  "getWorkflowRunJobs (\<lambda>request. Inr (Some [buildJob, lintJob])) (js ''o'') (js ''r'') (js ''7'')
     = Inr [buildJob, lintJob]
   \<and> extractFailureInfo (\<lambda>request. Inr (Some [buildJob, lintJob])) (js ''o'') (js ''r'') 7 (js ''7'')
       = Inr \<lparr>runId = 7, failedJobsCount = 1,
              failedJobs =
                [\<lparr>fj_name = js ''build'', fj_conclusion = js ''failure'',
                  fj_startedAt = js ''t0'', fj_completedAt = js ''t1'',
                  failedSteps =
                    [\<lparr>fs_name = js ''compile'', fs_number = 1, fs_conclusion = js ''failure'',
                      fs_startedAt = js ''t0'', fs_completedAt = js ''t1''\<rparr>]\<rparr>]\<rparr>"
proof -
  have h: "getWorkflowRunJobs (\<lambda>request. Inr (Some [buildJob, lintJob])) (js ''o'') (js ''r'') (js ''7'')
     = Inr [buildJob, lintJob]"
    by (simp add: getWorkflowRunJobs_def)
  have ne: "js ''success'' \<noteq> js ''failure''"
    by (simp add: js_def)
  from C7_failed_jobs_and_steps [OF h]
  have "extractFailureInfo (\<lambda>request. Inr (Some [buildJob, lintJob])) (js ''o'') (js ''r'') 7 (js ''7'')
       = Inr (summarizeFailures 7 [buildJob, lintJob])"
    by blast
  moreover have "summarizeFailures 7 [buildJob, lintJob]
       = \<lparr>runId = 7, failedJobsCount = 1,
              failedJobs =
                [\<lparr>fj_name = js ''build'', fj_conclusion = js ''failure'',
                  fj_startedAt = js ''t0'', fj_completedAt = js ''t1'',
                  failedSteps =
                    [\<lparr>fs_name = js ''compile'', fs_number = 1, fs_conclusion = js ''failure'',
                      fs_startedAt = js ''t0'', fs_completedAt = js ''t1''\<rparr>]\<rparr>]\<rparr>"
    using ne by (simp add: summarizeFailures_def summarizeJob_def summarizeStep_def
        buildJob_def lintJob_def Let_def)
  ultimately show ?thesis using h by simp
qed

end
